theory Spec2Isabelle
  imports Complex_Main "HOL-Library.Log_Nat"
begin

section \<open>Arrays\<close>

text \<open>
  The notebooks compute on numpy arrays of floating-point samples. An array is modelled
  by nested lists along its axes, first axis outermost: a timeseries is a list of
  samples, a (channels, times) recording is a list of channel rows, an
  (epochs, channels, times) array is a list of recordings. Samples are real numbers, so
  every statement below is one of exact arithmetic; where a statement concerns the
  rounding of 64-bit floats, the rounding is written out (section on rounding below).
\<close>

type_synonym vec = "real list"
type_synonym mat = "vec list"
type_synonym cube = "mat list"

definition shape2 :: "nat \<Rightarrow> nat \<Rightarrow> mat \<Rightarrow> bool" where
  "shape2 n m d \<longleftrightarrow> length d = n \<and> list_all (\<lambda>row. length row = m) d"

definition shape3 :: "nat \<Rightarrow> nat \<Rightarrow> nat \<Rightarrow> cube \<Rightarrow> bool" where
  "shape3 k n m d \<longleftrightarrow> length d = k \<and> list_all (shape2 n m) d"

text \<open>Elementwise \<open>+\<close> and \<open>-\<close> of two arrays of one shape.\<close>

definition vadd :: "vec \<Rightarrow> vec \<Rightarrow> vec" where
  "vadd xs ys = map2 (+) xs ys"

definition vsub :: "vec \<Rightarrow> vec \<Rightarrow> vec" where
  "vsub xs ys = map2 (-) xs ys"

definition madd :: "mat \<Rightarrow> mat \<Rightarrow> mat" where
  "madd a b = map2 vadd a b"

text \<open>
  \<open>d.sum(axis=0)\<close> adds the entries of the first axis to one another, and
  \<open>d.mean(axis=0)\<close> divides that sum by the length of the first axis. For a first
  axis of length 0 numpy fills the mean with nan (and warns); nested lists do not keep
  the other axis lengths of such an array, and the functions return \<open>[]\<close> there.
\<close>

definition sum_axis0 :: "mat \<Rightarrow> vec" where
  "sum_axis0 d = (case d of [] \<Rightarrow> [] | r # rs \<Rightarrow> foldl vadd r rs)"

definition mean_axis0 :: "mat \<Rightarrow> vec" where
  "mean_axis0 d = map (\<lambda>s. s / real (length d)) (sum_axis0 d)"

definition sum3_axis0 :: "cube \<Rightarrow> mat" where
  "sum3_axis0 d = (case d of [] \<Rightarrow> [] | r # rs \<Rightarrow> foldl madd r rs)"

definition mean3_axis0 :: "cube \<Rightarrow> mat" where
  "mean3_axis0 d = map (map (\<lambda>s. s / real (length d))) (sum3_axis0 d)"

section \<open>Common average reference\<close>

text \<open>
  \<^verbatim>\<open>avg_signal = data.mean(axis=0)\<close>
  \<^verbatim>\<open>data = data - avg_signal\<close>
  The subtraction broadcasts the (times) array over the channel axis.
\<close>

definition avg_signal :: "mat \<Rightarrow> vec" where
  "avg_signal data = mean_axis0 data"

definition car :: "mat \<Rightarrow> mat" where
  "car data = map (\<lambda>row. vsub row (avg_signal data)) data"

section \<open>Event-related potential and global field power\<close>

text \<open>
  \<^verbatim>\<open>mean_epoch = epochs._data.mean(axis=0)\<close> and
  \<^verbatim>\<open>data_av = np.mean(data, 0)\<close>: the mean over the epochs axis of an
  (epochs, channels, times) array.
\<close>

definition mean_epoch :: "cube \<Rightarrow> mat" where
  "mean_epoch epochs_data = mean3_axis0 epochs_data"

text \<open>\<open>** 2\<close> squares every entry.\<close>

definition pow2 :: "mat \<Rightarrow> mat" where
  "pow2 d = map (map (\<lambda>x. x ^ 2)) d"

text \<open>\<^verbatim>\<open>data_global = np.mean(data_av ** 2, 0)\<close>\<close>

definition data_global :: "mat \<Rightarrow> vec" where
  "data_global data_av = mean_axis0 (pow2 data_av)"

text \<open>
  \<^verbatim>\<open>squared_ep = epochs._data ** 2\<close>
  \<^verbatim>\<open>gfp_ep = squared_ep.mean(1)\<close>
  The mean over axis 1 of an (epochs, channels, times) array is, epoch by epoch, the
  mean over the channel axis.
\<close>

definition squared_ep :: "cube \<Rightarrow> cube" where
  "squared_ep epochs_data = map pow2 epochs_data"

definition gfp_ep :: "cube \<Rightarrow> mat" where
  "gfp_ep epochs_data = map mean_axis0 (squared_ep epochs_data)"

section \<open>Standard error\<close>

text \<open>
  \<^verbatim>\<open>def standard_error(data):\<close>
  \<^verbatim>\<open>    return np.std(data) / np.sqrt(data.shape[0])\<close>
  The function accepts an array of any number of axes. \<open>np.std\<close> without an axis works
  on the flattened array: it subtracts the mean, multiplies every deviation by itself,
  sums, divides by the number of entries and takes the square root. \<open>data.shape[0]\<close>
  is the length of the first axis; an array without axes has the empty shape, and
  indexing it raises \<open>IndexError\<close>. On an array without entries \<open>np.std\<close> is nan (with
  a warning), and so is the quotient.
\<close>

datatype ndarray = Scalar real | Array "ndarray list"

fun flatten :: "ndarray \<Rightarrow> real list" where
  "flatten (Scalar x) = [x]"
| "flatten (Array xs) = concat (map flatten xs)"

datatype error = IndexError | ValueError

datatype npfloat = NaN | Fin real

definition np_mean :: "vec \<Rightarrow> real" where
  "np_mean xs = sum_list xs / real (length xs)"

definition np_var :: "vec \<Rightarrow> real" where
  "np_var xs =
     (let arrmean = np_mean xs;
          x = map (\<lambda>v. v - arrmean) xs
      in sum_list (map (\<lambda>v. v * v) x) / real (length xs))"

definition np_std :: "vec \<Rightarrow> real" where
  "np_std xs = sqrt (np_var xs)"

definition standard_error :: "ndarray \<Rightarrow> error + npfloat" where
  "standard_error data =
     (case data of
        Scalar x \<Rightarrow> Inl IndexError
      | Array rows \<Rightarrow>
          if flatten data = [] then Inr NaN
          else Inr (Fin (np_std (flatten data) / sqrt (real (length rows)))))"


section \<open>Least-squares regression\<close>





section \<open>Rounding to 64-bit floats\<close>

text \<open>
  The arrays of the notebooks hold 64-bit floats. An operation on such floats returns
  the exact result rounded to the nearest number with a significand of 53 bits, a tie
  going to the even significand. \<open>binade x\<close> is the exponent \<open>e\<close> with
  \<open>2\<^sup>e \<le> \<bar>x\<bar> < 2\<^sup>e\<^sup>+\<^sup>1\<close>, and \<open>fl64\<close> rounds to a multiple of \<open>2\<^sup>e\<^sup>-\<^sup>5\<^sup>2\<close>. Exponents beyond the
  range of the format (overflow, subnormal numbers) and nan are not represented. The
  rounding is used only at inputs where every result is far inside that range.
\<close>

definition round_ties_even :: "real \<Rightarrow> int" where
  "round_ties_even x =
     (let f = \<lfloor>x\<rfloor>; r = x - of_int f
      in if r < 1 / 2 then f else if 1 / 2 < r then f + 1 else if even f then f else f + 1)"

definition binade :: "real \<Rightarrow> int" where
  "binade x = (if 1 \<le> \<bar>x\<bar> then bitlen \<lfloor>\<bar>x\<bar>\<rfloor> - 1 else - bitlen (\<lceil>1 / \<bar>x\<bar>\<rceil> - 1))"

definition fl64 :: "real \<Rightarrow> real" where
  "fl64 x = (if x = 0 then 0
             else let u = 2 powi (binade x - 52)
                  in of_int (round_ties_even (x / u)) * u)"

text \<open>
  The common average reference on 64-bit floats: the sum along the channel axis adds
  the rows one after the other, the mean divides the sum by the number of channels, the
  subtraction is elementwise, and every operation rounds.
\<close>

definition vadd_f64 :: "vec \<Rightarrow> vec \<Rightarrow> vec" where
  "vadd_f64 xs ys = map2 (\<lambda>x y. fl64 (x + y)) xs ys"

definition vsub_f64 :: "vec \<Rightarrow> vec \<Rightarrow> vec" where
  "vsub_f64 xs ys = map2 (\<lambda>x y. fl64 (x - y)) xs ys"

definition sum_axis0_f64 :: "mat \<Rightarrow> vec" where
  "sum_axis0_f64 d = (case d of [] \<Rightarrow> [] | r # rs \<Rightarrow> foldl vadd_f64 r rs)"

definition mean_axis0_f64 :: "mat \<Rightarrow> vec" where
  "mean_axis0_f64 d = map (\<lambda>s. fl64 (s / real (length d))) (sum_axis0_f64 d)"

definition avg_signal_f64 :: "mat \<Rightarrow> vec" where
  "avg_signal_f64 data = mean_axis0_f64 data"

definition car_f64 :: "mat \<Rightarrow> mat" where
  "car_f64 data = map (\<lambda>row. vsub_f64 row (avg_signal_f64 data)) data"

section \<open>Correlation\<close>



definition cov_fact :: "nat \<Rightarrow> real" where
  "cov_fact N = (let fact = real N - 1 in if fact \<le> 0 then 0 else fact)"


definition clip :: "real \<Rightarrow> real \<Rightarrow> real \<Rightarrow> real" where
  "clip lo hi v = min (max v lo) hi"






section \<open>Reference to one channel\<close>

text \<open>
  \<^verbatim>\<open>ref_chan = 0\<close>
  \<^verbatim>\<open>data_ref = data - data[ref_chan]\<close>
  Indexing the first axis beyond its length raises \<open>IndexError\<close>.
\<close>

definition data_ref :: "nat \<Rightarrow> mat \<Rightarrow> error + mat" where
  "data_ref ref_chan data =
     (if ref_chan < length data then Inr (map (\<lambda>row. vsub row (data ! ref_chan)) data)
      else Inl IndexError)"

section \<open>Correlation on 64-bit floats\<close>

text \<open>
  The steps of \<open>np.corrcoef\<close> for an array of at least two rows with every operation
  rounded: the row means, the centred rows, their products scaled by \<open>1 / (N - 1)\<close>, the
  square roots of the diagonal, the two divisions and the clip. Sums run from the left.
\<close>

definition sum_f64 :: "vec \<Rightarrow> real" where
  "sum_f64 xs = foldl (\<lambda>s x. fl64 (s + x)) 0 xs"

definition np_mean_f64 :: "vec \<Rightarrow> real" where
  "np_mean_f64 xs = fl64 (sum_f64 xs / real (length xs))"

definition dot_f64 :: "vec \<Rightarrow> vec \<Rightarrow> real" where
  "dot_f64 xs ys = sum_f64 (map2 (\<lambda>x y. fl64 (x * y)) xs ys)"

definition cov_f64 :: "mat \<Rightarrow> mat" where
  "cov_f64 m =
     (let avg = map np_mean_f64 m;
          fact = cov_fact (length (hd m));
          X = map2 (\<lambda>row a. map (\<lambda>v. fl64 (v - a)) row) m avg;
          s = fl64 (1 / fact)
      in map (\<lambda>xi. map (\<lambda>xj. fl64 (dot_f64 xi xj * s)) X) X)"

definition divide_by_stddev_f64 :: "mat \<Rightarrow> vec \<Rightarrow> mat" where
  "divide_by_stddev_f64 c stddev =
     (let c1 = map2 (\<lambda>row s. map (\<lambda>v. fl64 (v / s)) row) c stddev;
          c2 = map (\<lambda>row. map2 (\<lambda>v s. fl64 (v / s)) row stddev) c1
      in map (map (clip (- 1) 1)) c2)"

definition corrcoef_f64 :: "mat \<Rightarrow> mat" where
  "corrcoef_f64 x =
     (let c = cov_f64 x;
          d = map (\<lambda>i. c ! i ! i) [0..<length c];
          stddev = map (\<lambda>v. fl64 (sqrt v)) d
      in divide_by_stddev_f64 c stddev)"

section \<open>Sums along the first axis\<close>

lemma length_vadd: "length ys = length xs \<Longrightarrow> length (vadd xs ys) = length xs"
  by (simp add: vadd_def)

lemma nth_vadd: "t < length xs \<Longrightarrow> t < length ys \<Longrightarrow> vadd xs ys ! t = xs ! t + ys ! t"
  by (simp add: vadd_def)

lemma sum_nth_Cons:
  "(\<Sum>c<Suc (length rs). (r # rs) ! c ! t) = r ! t + (\<Sum>c<length rs. rs ! c ! (t::nat))"
  for r :: "real list"
  by (simp add: sum.lessThan_Suc_shift del: sum.lessThan_Suc)

lemma foldl_vadd:
  "length acc = m \<Longrightarrow> list_all (\<lambda>row. length row = m) rs \<Longrightarrow>
   length (foldl vadd acc rs) = m \<and>
   (\<forall>t<m. foldl vadd acc rs ! t = acc ! t + (\<Sum>c<length rs. rs ! c ! t))"
proof (induction rs arbitrary: acc)
  case Nil
  then show ?case by simp
next
  case (Cons r rs)
  have len: "length (vadd acc r) = m"
    using Cons.prems by (simp add: length_vadd)
  have rest: "list_all (\<lambda>row. length row = m) rs"
    using Cons.prems by simp
  have ih: "length (foldl vadd (vadd acc r) rs) = m \<and>
      (\<forall>t<m. foldl vadd (vadd acc r) rs ! t = vadd acc r ! t + (\<Sum>c<length rs. rs ! c ! t))"
    using Cons.IH [OF len rest] .
  have "foldl vadd acc (r # rs) ! t = acc ! t + (\<Sum>c<length (r # rs). (r # rs) ! c ! t)"
    if "t < m" for t
  proof -
    have "foldl vadd acc (r # rs) ! t = (acc ! t + r ! t) + (\<Sum>c<length rs. rs ! c ! t)"
      using ih that Cons.prems by (simp add: nth_vadd)
    also have "\<dots> = acc ! t + (\<Sum>c<Suc (length rs). (r # rs) ! c ! t)"
      by (simp only: sum_nth_Cons add.assoc)
    finally show ?thesis by simp
  qed
  then show ?case using ih by simp
qed

lemma sum_axis0_nth:
  assumes "shape2 n m d" and "0 < n"
  shows "length (sum_axis0 d) = m \<and> (\<forall>t<m. sum_axis0 d ! t = (\<Sum>c<n. d ! c ! t))"
proof -
  obtain r rs where d: "d = r # rs"
    using assms by (cases d) (auto simp: shape2_def)
  have r: "length r = m" and rs: "list_all (\<lambda>row. length row = m) rs" and n: "n = Suc (length rs)"
    using assms d by (auto simp: shape2_def)
  have "(\<Sum>c<n. d ! c ! t) = r ! t + (\<Sum>c<length rs. rs ! c ! t)" for t
    unfolding d n by (rule sum_nth_Cons)
  then show ?thesis
    using foldl_vadd [OF r rs] by (simp add: sum_axis0_def d)
qed

lemma mean_axis0_nth:
  assumes "shape2 n m d" and "0 < n"
  shows "length (mean_axis0 d) = m \<and>
         (\<forall>t<m. mean_axis0 d ! t = (\<Sum>c<n. d ! c ! t) / real n)"
proof -
  have "length d = n" using assms by (simp add: shape2_def)
  then show ?thesis
    using sum_axis0_nth [OF assms] by (simp add: mean_axis0_def)
qed


lemma shape2_nth: "shape2 n m d \<Longrightarrow> c < n \<Longrightarrow> length (d ! c) = m"
  by (simp add: shape2_def list_all_length)

lemma shape2_length: "shape2 n m d \<Longrightarrow> length d = n"
  by (simp add: shape2_def)

lemma shape2_I: "length d = n \<Longrightarrow> (\<And>c. c < n \<Longrightarrow> length (d ! c) = m) \<Longrightarrow> shape2 n m d"
  by (simp add: shape2_def list_all_length)

lemma shape2_pow2: "shape2 n m d \<Longrightarrow> shape2 n m (pow2 d)"
  by (simp add: shape2_def pow2_def list_all_length)

lemma pow2_nth: "shape2 n m d \<Longrightarrow> c < n \<Longrightarrow> t < m \<Longrightarrow> pow2 d ! c ! t = (d ! c ! t)\<^sup>2"
  by (simp add: shape2_def pow2_def list_all_length)

lemma vsub_nth: "t < length xs \<Longrightarrow> t < length ys \<Longrightarrow> vsub xs ys ! t = xs ! t - ys ! t"
  by (simp add: vsub_def)

lemma length_vsub: "length ys = length xs \<Longrightarrow> length (vsub xs ys) = length xs"
  by (simp add: vsub_def)

lemma length_madd: "length b = length a \<Longrightarrow> length (madd a b) = length a"
  by (simp add: madd_def)

lemma nth_madd: "c < length a \<Longrightarrow> c < length b \<Longrightarrow> madd a b ! c = vadd (a ! c) (b ! c)"
  by (simp add: madd_def)

lemma shape2_madd:
  assumes "shape2 n m a" and "shape2 n m b"
  shows "shape2 n m (madd a b)"
  using assms by (simp add: shape2_def list_all_length madd_def vadd_def)

lemma madd_nth:
  assumes "shape2 n m a" and "shape2 n m b" and "c < n" and "t < m"
  shows "madd a b ! c ! t = a ! c ! t + b ! c ! t"
  using assms by (simp add: shape2_def list_all_length madd_def vadd_def)

lemma sum_nth3_Cons:
  "(\<Sum>e<Suc (length rs). (r # rs) ! e ! c ! t) = r ! c ! t + (\<Sum>e<length rs. rs ! e ! c ! (t::nat))"
  for r :: "real list list"
  by (simp add: sum.lessThan_Suc_shift del: sum.lessThan_Suc)

lemma foldl_madd:
  "shape2 n m acc \<Longrightarrow> list_all (shape2 n m) rs \<Longrightarrow>
   shape2 n m (foldl madd acc rs) \<and>
   (\<forall>c<n. \<forall>t<m. foldl madd acc rs ! c ! t = acc ! c ! t + (\<Sum>e<length rs. rs ! e ! c ! t))"
proof (induction rs arbitrary: acc)
  case Nil
  then show ?case by simp
next
  case (Cons r rs)
  have r: "shape2 n m r" and rest: "list_all (shape2 n m) rs"
    using Cons.prems by simp_all
  have acc': "shape2 n m (madd acc r)"
    using Cons.prems(1) r by (rule shape2_madd)
  have ih: "shape2 n m (foldl madd (madd acc r) rs) \<and>
      (\<forall>c<n. \<forall>t<m. foldl madd (madd acc r) rs ! c ! t
          = madd acc r ! c ! t + (\<Sum>e<length rs. rs ! e ! c ! t))"
    using Cons.IH [OF acc' rest] .
  have "foldl madd acc (r # rs) ! c ! t = acc ! c ! t + (\<Sum>e<length (r # rs). (r # rs) ! e ! c ! t)"
    if "c < n" and "t < m" for c t
  proof -
    have "foldl madd acc (r # rs) ! c ! t = (acc ! c ! t + r ! c ! t) + (\<Sum>e<length rs. rs ! e ! c ! t)"
      using ih that madd_nth [OF Cons.prems(1) r that] by simp
    also have "\<dots> = acc ! c ! t + (\<Sum>e<Suc (length rs). (r # rs) ! e ! c ! t)"
      by (simp only: sum_nth3_Cons add.assoc)
    finally show ?thesis by simp
  qed
  then show ?case using ih by simp
qed

lemma sum3_axis0_nth:
  assumes "shape3 k n m d" and "0 < k"
  shows "shape2 n m (sum3_axis0 d) \<and>
         (\<forall>c<n. \<forall>t<m. sum3_axis0 d ! c ! t = (\<Sum>e<k. d ! e ! c ! t))"
proof -
  obtain r rs where d: "d = r # rs"
    using assms by (cases d) (auto simp: shape3_def)
  have r: "shape2 n m r" and rs: "list_all (shape2 n m) rs" and k: "k = Suc (length rs)"
    using assms d by (auto simp: shape3_def)
  have "(\<Sum>e<k. d ! e ! c ! t) = r ! c ! t + (\<Sum>e<length rs. rs ! e ! c ! t)" for c t
    unfolding d k by (rule sum_nth3_Cons)
  then show ?thesis
    using foldl_madd [OF r rs] by (simp add: sum3_axis0_def d)
qed

lemma car_shape: 
  assumes "shape2 n m d" shows "shape2 n m (car d)"
proof (cases "n = 0")
  case True then show ?thesis using assms by (simp add: shape2_def car_def)
next
  case False
  then have n: "0 < n" by simp
  have avg: "length (avg_signal d) = m"
    using mean_axis0_nth [OF assms n] by (simp add: avg_signal_def)
  show ?thesis
    using assms avg by (auto simp: shape2_def car_def list_all_length length_vsub)
qed

lemma car_nth:
  assumes "shape2 n m d" and "c < n" and "t < m"
  shows "car d ! c ! t = d ! c ! t - (\<Sum>c'<n. d ! c' ! t) / real n"
proof -
  have n: "0 < n" using assms by simp
  have len: "length d = n" using assms by (simp add: shape2_length)
  have row: "length (d ! c) = m" using assms by (simp add: shape2_nth)
  have avg: "length (avg_signal d) = m" "avg_signal d ! t = (\<Sum>c'<n. d ! c' ! t) / real n"
    using mean_axis0_nth [OF assms(1) n] assms(3) by (simp_all add: avg_signal_def)
  have "car d ! c = vsub (d ! c) (avg_signal d)"
    using assms len by (simp add: car_def)
  then show ?thesis
    using row avg assms(3) by (simp add: vsub_nth)
qed

lemma data_global_nth:
  assumes "shape2 n m d" and "0 < n"
  shows "length (data_global d) = m \<and>
         (\<forall>t<m. data_global d ! t = (\<Sum>c<n. (d ! c ! t)\<^sup>2) / real n \<and> 0 \<le> data_global d ! t)"
proof -
  have sq: "shape2 n m (pow2 d)" using assms(1) by (rule shape2_pow2)
  have mean: "length (mean_axis0 (pow2 d)) = m"
    "\<And>t. t < m \<Longrightarrow> mean_axis0 (pow2 d) ! t = (\<Sum>c<n. pow2 d ! c ! t) / real n"
    using mean_axis0_nth [OF sq assms(2)] by simp_all
  have val: "data_global d ! t = (\<Sum>c<n. (d ! c ! t)\<^sup>2) / real n" if "t < m" for t
    using mean(2) [OF that] pow2_nth [OF assms(1) _ that] by (simp add: data_global_def)
  have "0 \<le> (\<Sum>c<n. (d ! c ! t)\<^sup>2) / real n" for t
    by (intro divide_nonneg_nonneg sum_nonneg) simp_all
  then show ?thesis using mean(1) val by (simp add: data_global_def)
qed

section \<open>Common average reference subtracts the channel mean\<close>

text \<open>
  Claim C2. Common average referencing maps a (channels, times) array \<open>d\<close> to an array
  of the same shape whose entry at channel \<open>c\<close> and time \<open>t\<close> is \<open>d[c][t]\<close> minus
  the mean over all channels \<open>c'\<close> of \<open>d[c'][t]\<close>.
\<close>

theorem car_subtracts_channel_mean:
  assumes "shape2 n m d"
  shows "shape2 n m (car d) \<and>
         (\<forall>c<n. \<forall>t<m. car d ! c ! t = d ! c ! t - (\<Sum>c'<n. d ! c' ! t) / real n)"
  using car_shape [OF assms] car_nth [OF assms] by simp

theorem car_subtracts_channel_mean_witness:
  "shape2 2 2 [[1, 2], [3, 6]] \<and> shape2 2 2 (car [[1, 2], [3, 6]]) \<and>
   car [[1, 2], [3, 6]] ! 0 ! 1 = 2 - (2 + 6) / 2"
  using car_subtracts_channel_mean [of 2 2 "[[1, 2], [3, 6]]"]
  by (simp add: shape2_def lessThan_Suc numeral_2_eq_2 All_less_Suc)

section \<open>Global field power is the channel mean of the squared signal\<close>



section \<open>The event-related potential is the trial average\<close>

text \<open>
  Claim C4. For a non-empty epochs array of shape (n_epochs, n_channels, n_times), the
  mean over the first axis has shape (n_channels, n_times), and its entry at \<open>(c, t)\<close>
  is the arithmetic mean over the epochs \<open>e\<close> of the value at \<open>(e, c, t)\<close>.
\<close>

theorem mean_epoch_is_trial_average:
  assumes "shape3 k n m d" and "0 < k"
  shows "shape2 n m (mean_epoch d) \<and>
         (\<forall>c<n. \<forall>t<m. mean_epoch d ! c ! t = (\<Sum>e<k. d ! e ! c ! t) / real k)"
proof -
  have len: "length d = k" using assms by (simp add: shape3_def)
  have s: "shape2 n m (sum3_axis0 d)"
    and v: "\<And>c t. c < n \<Longrightarrow> t < m \<Longrightarrow> sum3_axis0 d ! c ! t = (\<Sum>e<k. d ! e ! c ! t)"
    using sum3_axis0_nth [OF assms] by simp_all
  have "shape2 n m (mean_epoch d)"
    using s by (simp add: mean_epoch_def mean3_axis0_def shape2_def list_all_length)
  moreover have "mean_epoch d ! c ! t = (\<Sum>e<k. d ! e ! c ! t) / real k" if "c < n" "t < m" for c t
    using s v [OF that] that len
    by (simp add: mean_epoch_def mean3_axis0_def shape2_def list_all_length)
  ultimately show ?thesis by simp
qed


theorem mean_epoch_is_trial_average_witness:
  "shape3 2 1 2 [[[1, 2]], [[3, 6]]] \<and> (0::nat) < 2 \<and> shape2 1 2 (mean_epoch [[[1, 2]], [[3, 6]]]) \<and>
   mean_epoch [[[1, 2]], [[3, 6]]] ! 0 ! 1 = (2 + 6) / 2"
  using mean_epoch_is_trial_average [of 2 1 2 "[[[1, 2]], [[3, 6]]]"]
  by (simp add: shape3_def shape2_def lessThan_Suc numeral_2_eq_2 All_less_Suc)

section \<open>The standard error is sigma over the square root of N\<close>






section \<open>The fitted weight minimises the squared error\<close>








section \<open>Applying the common average reference twice\<close>

lemma avg_signal_car_zero:
  assumes "shape2 n m d" and "0 < n"
  shows "avg_signal (car d) = replicate m 0"
proof -
  have sc: "shape2 n m (car d)" using assms(1) by (rule car_shape)
  have len: "length (avg_signal (car d)) = m"
    and val: "\<And>t. t < m \<Longrightarrow> avg_signal (car d) ! t = (\<Sum>c<n. car d ! c ! t) / real n"
    using mean_axis0_nth [OF sc assms(2)] by (simp_all add: avg_signal_def)
  have "avg_signal (car d) ! t = 0" if t: "t < m" for t
  proof -
    let ?mu = "(\<Sum>c'<n. d ! c' ! t) / real n"
    have "(\<Sum>c<n. car d ! c ! t) = (\<Sum>c<n. d ! c ! t - ?mu)"
      using car_nth [OF assms(1)] t by simp
    also have "\<dots> = (\<Sum>c<n. d ! c ! t) - real n * ?mu"
      by (simp add: sum_subtractf)
    also have "\<dots> = 0"
      using assms(2) by simp
    finally show ?thesis using val [OF t] by simp
  qed
  then show ?thesis using len by (simp add: list_eq_iff_nth_eq)
qed

text \<open>
  Claim C8, in exact arithmetic. For every (channels, times) array of real numbers, the
  output of the channel-mean subtraction has cross-channel mean zero at every timepoint
  (where there is a channel to average), and applying the operation a second time
  returns the data unchanged.
\<close>

theorem car_idempotent_exact:
  assumes "shape2 n m d"
  shows "(0 < n \<longrightarrow> avg_signal (car d) = replicate m 0) \<and> car (car d) = car d"
proof -
  have "car (car d) = car d"
  proof (cases "n = 0")
    case True
    then show ?thesis using assms by (simp add: shape2_def car_def)
  next
    case False
    then have n: "0 < n" by simp
    have sc: "shape2 n m (car d)" using assms by (rule car_shape)
    have "vsub row (replicate m 0) = row" if "length row = m" for row :: "real list"
      using that by (simp add: list_eq_iff_nth_eq vsub_def)
    then have "map (\<lambda>row. vsub row (replicate m 0)) (car d) = car d"
      using sc by (simp add: map_idI shape2_def list_all_iff)
    then show ?thesis
      using avg_signal_car_zero [OF assms n] by (simp add: car_def [of "car d"])
  qed
  then show ?thesis using avg_signal_car_zero [OF assms] by simp
qed

theorem car_idempotent_exact_witness:
  "shape2 3 1 [[1], [2], [4]] \<and> (0::nat) < 3 \<and> avg_signal (car [[1], [2], [4]]) = [0] \<and> 
   car (car [[1], [2], [4]]) = car [[1], [2], [4]]"
  using car_idempotent_exact [of 3 1 "[[1], [2], [4]]"]
  by (simp add: shape2_def)

subsection \<open>The rounding is to a nearest float\<close>

lemma bitlen_pos: "0 < f \<Longrightarrow> 0 < bitlen f"
  using bitlen_nonneg [of f] bitlen_eq_zero_iff [of f] by linarith

lemma binade_ge1:
  assumes "1 \<le> \<bar>x\<bar>"
  shows "2 powi binade x \<le> \<bar>x\<bar> \<and> \<bar>x\<bar> < 2 powi (binade x + 1)"
proof -
  let ?f = "\<lfloor>\<bar>x\<bar>\<rfloor>"
  have f: "0 < ?f" using assms by simp
  from bitlen_bounds [OF f] have b: "2 ^ nat (bitlen ?f - 1) \<le> ?f" "?f < 2 ^ nat (bitlen ?f)"
    by simp_all
  have bl: "0 < bitlen ?f" using f by (rule bitlen_pos)
  have "2 powi binade x = (2::real) ^ nat (bitlen ?f - 1)"
    using assms bl by (simp add: binade_def power_int_def)
  also have "\<dots> = real_of_int (2 ^ nat (bitlen ?f - 1))" by simp
  also have "\<dots> \<le> real_of_int ?f" using b(1) by (simp only: of_int_le_iff)
  also have "\<dots> \<le> \<bar>x\<bar>" by simp
  finally have lo: "2 powi binade x \<le> \<bar>x\<bar>" .
  have "?f + 1 \<le> 2 ^ nat (bitlen ?f)" using b(2) by simp
  then have "real_of_int (?f + 1) \<le> real_of_int (2 ^ nat (bitlen ?f))" by (simp only: of_int_le_iff)
  then have "real_of_int ?f + 1 \<le> (2::real) ^ nat (bitlen ?f)" by simp
  moreover have "\<bar>x\<bar> < real_of_int ?f + 1" by linarith
  ultimately have "\<bar>x\<bar> < (2::real) ^ nat (bitlen ?f)" by linarith
  also have "\<dots> = 2 powi (binade x + 1)"
    using assms bl by (simp add: binade_def power_int_def)
  finally show ?thesis using lo by simp
qed

lemma binade_lt1:
  assumes "x \<noteq> 0" and "\<bar>x\<bar> < 1"
  shows "2 powi binade x \<le> \<bar>x\<bar> \<and> \<bar>x\<bar> < 2 powi (binade x + 1)"
proof -
  define y where "y = 1 / \<bar>x\<bar>"
  define c where "c = \<lceil>y\<rceil> - 1"
  define k where "k = nat (bitlen c)"
  have xpos: "0 < \<bar>x\<bar>" using assms(1) by simp
  have y1: "1 < y" using assms xpos by (simp add: y_def)
  have c: "0 < c" using y1 by (simp add: c_def)
  have kpos: "0 < k" using bitlen_pos [OF c] by (simp add: k_def)
  have e: "binade x = - int k"
    using assms(2) bitlen_nonneg [of c] by (simp add: binade_def c_def y_def k_def)
  from bitlen_bounds [OF c] have b: "2 ^ (k - 1) \<le> c" "c < 2 ^ k"
    using kpos by (simp_all add: k_def nat_diff_distrib)
  have "y \<le> real_of_int (c + 1)" by (simp add: c_def)
  also have "\<dots> \<le> real_of_int (2 ^ k)" using b(2) by (simp only: of_int_le_iff)
  finally have up: "y \<le> 2 ^ k" by simp
  have "real_of_int (2 ^ (k - 1)) \<le> real_of_int c" using b(1) by (simp only: of_int_le_iff)
  then have "(2::real) ^ (k - 1) \<le> real_of_int c" by simp
  moreover have "real_of_int c < y" by (simp add: c_def) linarith
  ultimately have low: "2 ^ (k - 1) < y" by linarith
  have x: "\<bar>x\<bar> = 1 / y" using xpos by (simp add: y_def)
  have "(2::real) powi binade x = 1 / 2 ^ k"
    by (simp add: e power_int_minus field_simps)
  also have "\<dots> \<le> 1 / y" using up y1 by (simp add: frac_le)
  finally have lo: "2 powi binade x \<le> \<bar>x\<bar>" using x by simp
  have "1 / y < 1 / 2 ^ (k - 1)" using low by (simp add: frac_less2)
  also have "\<dots> = 2 powi (binade x + 1)"
  proof -
    have "binade x + 1 = - int (k - 1)" using kpos e by simp
    then have "(2::real) powi (binade x + 1) = 1 / 2 ^ (k - 1)"
      by (simp only: power_int_minus power_int_of_nat) (simp add: field_simps)
    then show ?thesis by simp
  qed
  finally show ?thesis using lo x by simp
qed

lemma binade_bounds:
  "x \<noteq> 0 \<Longrightarrow> 2 powi binade x \<le> \<bar>x\<bar> \<and> \<bar>x\<bar> < 2 powi (binade x + 1)"
  using binade_ge1 [of x] binade_lt1 [of x] by (cases "1 \<le> \<bar>x\<bar>") simp_all

lemma round_ties_even_error: "\<bar>of_int (round_ties_even x) - x\<bar> \<le> 1 / 2"
proof -
  have "of_int \<lfloor>x\<rfloor> \<le> x" "x < of_int \<lfloor>x\<rfloor> + 1" by linarith+
  then show ?thesis by (auto simp: round_ties_even_def Let_def)
qed

lemma fl64_error:
  assumes "x \<noteq> 0"
  shows "\<bar>fl64 x - x\<bar> \<le> 2 powi (binade x - 53)"
proof -
  define u :: real where "u = 2 powi (binade x - 52)"
  have u: "0 < u" by (simp add: u_def)
  have "fl64 x - x = (of_int (round_ties_even (x / u)) - x / u) * u"
    using assms u by (simp add: fl64_def u_def [symmetric] Let_def field_simps)
  then have "\<bar>fl64 x - x\<bar> = \<bar>of_int (round_ties_even (x / u)) - x / u\<bar> * u"
    using u by (simp add: abs_mult)
  also have "\<dots> \<le> (1 / 2) * u"
    using u round_ties_even_error [of "x / u"] by (simp only: mult_right_mono less_imp_le)
  also have "\<dots> = 2 powi (binade x - 53)"
  proof -
    have e: "binade x - 52 = (binade x - 53) + 1" by simp
    have "u = 2 powi (binade x - 53) * 2 powi 1"
      unfolding u_def e by (rule power_int_add) simp
    then show ?thesis by simp
  qed
  finally show ?thesis .
qed

subsection \<open>On 64-bit floats the second application changes the data\<close>

text \<open>
  The three channels 1, 2, 4 at one timepoint. Their sum 7 is exact, their mean is 7/3
  rounded, \<open>5254199565265579 / 2\<^sup>5\<^sup>1\<close>, and the three differences are exact.
\<close>

lemma car_f64_step1:
  "car_f64 [[1], [2], [4]] =
     [[- (3002399751580331 / 2251799813685248)],
      [- (750599937895083 / 2251799813685248)],
      [3752999689475413 / 2251799813685248]]"
  by code_simp

text \<open>
  The differences add up to \<open>- 1 / 2\<^sup>5\<^sup>1\<close>, again without rounding, so their mean is a
  third of that, rounded, and not zero.
\<close>

lemma car_f64_step2:
  "avg_signal_f64
     [[- (3002399751580331 / 2251799813685248)],
      [- (750599937895083 / 2251799813685248)],
      [3752999689475413 / 2251799813685248]]
   = [- (6004799503160661 / 40564819207303340847894502572032)]"
  by code_simp

text \<open>Subtracting that mean moves each of the three values to a neighbouring float.\<close>

lemma car_f64_step3:
  "car_f64
     [[- (3002399751580331 / 2251799813685248)],
      [- (750599937895083 / 2251799813685248)],
      [3752999689475413 / 2251799813685248]]
   = [[- (6004799503160661 / 4503599627370496)],
      [- (6004799503160661 / 18014398509481984)],
      [7505999378950827 / 4503599627370496]]"
  by code_simp

text \<open>
  Claim C8, on the floats of the arrays. For the (3, 1) array of the channels 1, 2, 4 the
  output of the channel-mean subtraction does not have cross-channel mean zero, and a
  second application does not return it unchanged.
\<close>

theorem car_float64_not_idempotent:
  "avg_signal_f64 (car_f64 [[1], [2], [4]]) \<noteq> [0] \<and>
   car_f64 (car_f64 [[1], [2], [4]]) \<noteq> car_f64 [[1], [2], [4]]"
  unfolding car_f64_step1 car_f64_step2 car_f64_step3 by simp

section \<open>The correlation matrix\<close>















section \<open>Regression on scaled data is correlation\<close>







section \<open>Further properties of the notebooks' computations\<close>

subsection \<open>Referencing to one channel\<close>

text \<open>
  Referencing a (channels, times) array to one of its channels keeps the shape,
  subtracts that channel's timeseries from every channel, and leaves the reference
  channel itself at zero.
\<close>

theorem data_ref_subtracts_reference_channel:
  assumes "shape2 n m d" and "r < n"
  shows "\<exists>out. data_ref r d = Inr out \<and> shape2 n m out \<and> out ! r = replicate m 0 \<and>
           (\<forall>c<n. \<forall>t<m. out ! c ! t = d ! c ! t - d ! r ! t)"
proof -
  define out where "out = map (\<lambda>row. vsub row (d ! r)) d"
  have len: "length d = n" using assms(1) by (rule shape2_length)
  have rows: "\<And>c. c < n \<Longrightarrow> length (d ! c) = m" using assms(1) by (simp add: shape2_nth)
  have "data_ref r d = Inr out" using assms(2) len by (simp add: data_ref_def out_def)
  moreover have "shape2 n m out"
    using len rows assms(2) by (intro shape2_I) (simp_all add: out_def length_vsub)
  moreover have v: "out ! c ! t = d ! c ! t - d ! r ! t" if "c < n" "t < m" for c t
    using that len rows assms(2) by (simp add: out_def vsub_nth)
  moreover have "out ! r = replicate m 0"
  proof -
    have "length (out ! r) = m" using len rows assms(2) by (simp add: out_def length_vsub)
    then show ?thesis using v [OF assms(2)] by (simp add: list_eq_iff_nth_eq)
  qed
  ultimately show ?thesis by blast
qed

theorem data_ref_subtracts_reference_channel_witness:
  "shape2 2 2 [[1, 2], [3, 6]] \<and> (0::nat) < 2 \<and> data_ref 0 [[1, 2], [3, 6]] = Inr [[0, 0], [2, 4]]"
  using data_ref_subtracts_reference_channel [of 2 2 "[[1, 2], [3, 6]]" 0]
  by (simp add: shape2_def data_ref_def vsub_def)

subsection \<open>Global field power of every epoch\<close>

text \<open>
  For an (epochs, channels, times) array with at least one channel, \<open>gfp_ep\<close> has shape
  (epochs, times); its entry for an epoch and a timepoint is the mean across channels of
  the squared value, and is not negative.
\<close>

theorem gfp_ep_mean_square:
  assumes "shape3 k n m e" and "0 < n"
  shows "shape2 k m (gfp_ep e) \<and>
         (\<forall>i<k. \<forall>t<m. gfp_ep e ! i ! t = (\<Sum>c<n. (e ! i ! c ! t)\<^sup>2) / real n \<and>
                        0 \<le> gfp_ep e ! i ! t)"
proof -
  have len: "length e = k" and ep: "\<And>i. i < k \<Longrightarrow> shape2 n m (e ! i)"
    using assms(1) by (simp_all add: shape3_def list_all_length)
  have row: "gfp_ep e ! i = data_global (e ! i)" if "i < k" for i
    using that len by (simp add: gfp_ep_def squared_ep_def data_global_def)
  have g: "length (data_global (e ! i)) = m \<and>
      (\<forall>t<m. data_global (e ! i) ! t = (\<Sum>c<n. (e ! i ! c ! t)\<^sup>2) / real n \<and>
              0 \<le> data_global (e ! i) ! t)" if "i < k" for i
    using data_global_nth [OF ep [OF that] assms(2)] .
  have "shape2 k m (gfp_ep e)"
    using g row len by (intro shape2_I) (simp_all add: gfp_ep_def squared_ep_def)
  moreover have "0 \<le> (\<Sum>c<n. (e ! i ! c ! t)\<^sup>2) / real n" for i t
    by (intro divide_nonneg_nonneg sum_nonneg) simp_all
  ultimately show ?thesis using g row by simp
qed

theorem gfp_ep_mean_square_witness:
  "shape3 1 2 2 [[[1, 2], [3, 6]]] \<and> (0::nat) < 2 \<and> gfp_ep [[[1, 2], [3, 6]]] = [[5, 20]]"
  using gfp_ep_mean_square [of 1 2 2 "[[[1, 2], [3, 6]]]"]
  by (simp add: shape3_def shape2_def gfp_ep_def squared_ep_def pow2_def mean_axis0_def
      sum_axis0_def vadd_def)

subsection \<open>The standard error of arrays that have no samples\<close>

text \<open>
  \<open>standard_error\<close> raises \<open>IndexError\<close> on an array without axes, and returns nan on an
  array whose first axis is empty.
\<close>

theorem standard_error_without_samples:
  "standard_error (Scalar x) = Inl IndexError \<and> standard_error (Array []) = Inr NaN"
  by (simp add: standard_error_def)

subsection \<open>The diagonal of the correlation matrix on 64-bit floats\<close>

text \<open>
  The two rows 0, 2 and 0, 2. Means, centred rows, products and sums are exact here, so
  the covariance is 2 in every entry whatever the order of the sums.
\<close>

lemma cov_f64_example: "cov_f64 [[0, 2], [0, 2]] = [[2, 2], [2, 2]]"
  by code_simp

text \<open>The square root of 2 rounds up, to \<open>6369051672525773 / 2\<^sup>5\<^sup>2\<close>.\<close>

lemma sqrt2_bounds:
  "6369051672525772 + 1 / 2 < sqrt 2 * 2 ^ 52" "sqrt 2 * 2 ^ 52 < 6369051672525773"
proof -
  have "((6369051672525772 + 1 / 2) / 2 ^ 52)\<^sup>2 < (2::real)" by (simp add: power2_eq_square)
  then have "(6369051672525772 + 1 / 2) / 2 ^ 52 < sqrt 2"
    by (intro real_less_rsqrt)
  then show "6369051672525772 + 1 / 2 < sqrt 2 * 2 ^ 52" by (simp add: field_simps)
  have "(2::real) < (6369051672525773 / 2 ^ 52)\<^sup>2" by (simp add: power2_eq_square)
  then have "sqrt 2 < 6369051672525773 / 2 ^ 52"
    by (intro real_less_lsqrt) simp_all
  then show "sqrt 2 * 2 ^ 52 < 6369051672525773" by (simp add: field_simps)
qed

lemma round_ties_even_upper:
  assumes "of_int n + 1 / 2 < x" and "x < of_int n + 1"
  shows "round_ties_even x = n + 1"
proof -
  have "\<lfloor>x\<rfloor> = n" using assms by linarith
  then show ?thesis using assms by (simp add: round_ties_even_def Let_def)
qed

lemma fl64_sqrt2: "fl64 (sqrt 2) = 6369051672525773 / 4503599627370496"
proof -
  have one: "1 < sqrt 2" "sqrt 2 < 2"
    by (simp_all add: real_less_lsqrt real_less_rsqrt)
  then have fl: "\<lfloor>sqrt 2\<rfloor> = 1" by linarith
  have "bitlen 1 = 1" by code_simp
  then have b: "binade (sqrt 2) = 0"
    using one by (simp add: binade_def fl)
  have r: "round_ties_even (sqrt 2 * 2 ^ 52) = 6369051672525772 + 1"
    using sqrt2_bounds by (intro round_ties_even_upper) simp_all
  have "fl64 (sqrt 2) = of_int (round_ties_even (sqrt 2 * 2 ^ 52)) / 2 ^ 52"
    by (simp add: fl64_def b power_int_minus Let_def field_simps)
  then show ?thesis unfolding r by simp
qed


lemma divide_by_stddev_f64_example:
  "divide_by_stddev_f64 [[2, 2], [2, 2]]
     [6369051672525773 / 4503599627370496, 6369051672525773 / 4503599627370496]
   = [[9007199254740991 / 9007199254740992, 9007199254740991 / 9007199254740992],
      [9007199254740991 / 9007199254740992, 9007199254740991 / 9007199254740992]]"
  by code_simp

text \<open>
  On 64-bit floats every entry of the correlation matrix of these two rows, the diagonal
  included, is \<open>1 - 2\<^sup>-\<^sup>5\<^sup>3\<close>, the float below 1.
\<close>

theorem corrcoef_f64_diagonal_below_1:
  "corrcoef_f64 [[0, 2], [0, 2]]
   = [[9007199254740991 / 9007199254740992, 9007199254740991 / 9007199254740992],
      [9007199254740991 / 9007199254740992, 9007199254740991 / 9007199254740992]]"
proof -
  have "map (\<lambda>i. [[2, 2], [2, 2::real]] ! i ! i) [0..<length [[2, 2], [2, 2::real]]] = [2, 2]"
    by (simp add: upt_rec)
  then show ?thesis
    unfolding corrcoef_f64_def cov_f64_example Let_def
    by (simp only: list.map fl64_sqrt2 divide_by_stddev_f64_example)
qed

end
